theory Spec2Isabelle
  imports Complex_Main
begin

section \<open>Tensor elements\<close>

text \<open>
  The debiasers of \<^verbatim>\<open>allennlp/fairness/debiasers.py\<close> are two expressions over
  floating-point tensors. An element is modelled as an exact real number or one of the three
  special values of the floating-point format: the two infinities and not-a-number. Rounding,
  overflow and the sign of zero are not modelled (a zero divisor counts as positive zero, which
  is what a sum of squares yields).
\<close>

datatype scalar = Fin real | PInf | MInf | NaN

fun is_fin :: "scalar \<Rightarrow> bool" where
  "is_fin (Fin x) = True"
| "is_fin _ = False"

fun fneg :: "scalar \<Rightarrow> scalar" where
  "fneg (Fin x) = Fin (- x)"
| "fneg PInf = MInf"
| "fneg MInf = PInf"
| "fneg NaN = NaN"

fun fadd :: "scalar \<Rightarrow> scalar \<Rightarrow> scalar" where
  "fadd NaN _ = NaN"
| "fadd _ NaN = NaN"
| "fadd (Fin x) (Fin y) = Fin (x + y)"
| "fadd PInf MInf = NaN"
| "fadd MInf PInf = NaN"
| "fadd PInf _ = PInf"
| "fadd MInf _ = MInf"
| "fadd (Fin x) PInf = PInf"
| "fadd (Fin x) MInf = MInf"

definition fsub :: "scalar \<Rightarrow> scalar \<Rightarrow> scalar" where
  "fsub a b = fadd a (fneg b)"

text \<open>An infinity with the sign of a non-zero real, relative to the sign of \<open>i\<close>.\<close>

definition signed_inf :: "scalar \<Rightarrow> real \<Rightarrow> scalar" where
  "signed_inf i x = (if x = 0 then NaN else if 0 < x then i else fneg i)"

fun fmul :: "scalar \<Rightarrow> scalar \<Rightarrow> scalar" where
  "fmul NaN _ = NaN"
| "fmul _ NaN = NaN"
| "fmul (Fin x) (Fin y) = Fin (x * y)"
| "fmul (Fin x) PInf = signed_inf PInf x"
| "fmul (Fin x) MInf = signed_inf MInf x"
| "fmul PInf (Fin y) = signed_inf PInf y"
| "fmul MInf (Fin y) = signed_inf MInf y"
| "fmul PInf PInf = PInf"
| "fmul MInf MInf = PInf"
| "fmul PInf MInf = MInf"
| "fmul MInf PInf = MInf"

fun fdiv :: "scalar \<Rightarrow> scalar \<Rightarrow> scalar" where
  "fdiv NaN _ = NaN"
| "fdiv _ NaN = NaN"
| "fdiv (Fin x) (Fin y) = (if y \<noteq> 0 then Fin (x / y) else signed_inf PInf x)"
| "fdiv (Fin x) PInf = Fin 0"
| "fdiv (Fin x) MInf = Fin 0"
| "fdiv PInf (Fin y) = (if 0 \<le> y then PInf else MInf)"
| "fdiv MInf (Fin y) = (if 0 \<le> y then MInf else PInf)"
| "fdiv _ _ = NaN"

definition fsum :: "scalar list \<Rightarrow> scalar" where
  "fsum xs = foldr fadd xs (Fin 0)"

text \<open>The inner product of two element sequences of equal length.\<close>

definition dot :: "scalar list \<Rightarrow> scalar list \<Rightarrow> scalar" where
  "dot xs ys = fsum (map2 fmul xs ys)"

section \<open>Tensors and the operations of the tensor library\<close>

text \<open>
  A tensor is its shape, its elements in row-major order, and the flag saying whether
  gradients are recorded for it. A two-dimensional tensor, which is what
  \<^verbatim>\<open>reshape(-1, 1)\<close> returns, has a type of its own.
\<close>

record tensor =
  shape :: "nat list"
  data :: "scalar list"
  grad :: bool

record matrix =
  nrows :: nat
  ncols :: nat
  entries :: "scalar list"
  mgrad :: bool

text \<open>
  The tensor library reports every failure as a \<^verbatim>\<open>RuntimeError\<close>. The causes that the
  operations used here can have are told apart: sizes that do not fit each other, an operand
  with the wrong number of dimensions, and operands of different element types.
\<close>

datatype error = ShapeMismatch | RankError | TypeMismatch

definition wf_tensor :: "tensor \<Rightarrow> bool" where
  "wf_tensor t = (length (data t) = prod_list (shape t))"

definition numel :: "tensor \<Rightarrow> nat" where
  "numel t = prod_list (shape t)"

text \<open>
  The vectors of a tensor of shape \<open>(\<dots>, d)\<close>: the consecutive runs of \<open>d\<close> elements, one
  for each index of the leading dimensions.
\<close>

definition chunks :: "nat \<Rightarrow> nat \<Rightarrow> 'a list \<Rightarrow> 'a list list" where
  "chunks n d xs = map (\<lambda>i. take d (drop (i * d) xs)) [0..<n]"

definition rows :: "tensor \<Rightarrow> scalar list list" where
  "rows t = chunks (prod_list (butlast (shape t))) (last (shape t)) (data t)"

text \<open>Sequencing of operations that may raise: the first error is the result.\<close>

definition and_then :: "error + 'a \<Rightarrow> ('a \<Rightarrow> error + 'b) \<Rightarrow> error + 'b" where
  "and_then r f = (case r of Inl e \<Rightarrow> Inl e | Inr x \<Rightarrow> f x)"

text \<open>
  Every operation takes the gradient mode \<open>g\<close> in force: its result records gradients when
  the mode is on and an operand does. The elements computed do not depend on the mode.
\<close>

text \<open>\<^verbatim>\<open>t.reshape(-1, 1)\<close>: all elements in one column.\<close>

definition reshape_column :: "bool \<Rightarrow> tensor \<Rightarrow> matrix" where
  "reshape_column g t =
     \<lparr>nrows = numel t, ncols = 1, entries = data t, mgrad = (g \<and> grad t)\<rparr>"

definition column :: "matrix \<Rightarrow> nat \<Rightarrow> scalar list" where
  "column m j = map (\<lambda>i. entries m ! (i * ncols m + j)) [0..<nrows m]"

text \<open>
  \<^verbatim>\<open>torch.matmul(a, m)\<close> for a two-dimensional \<open>m\<close>: every vector of \<open>a\<close> is multiplied
  with the matrix. A zero-dimensional \<open>a\<close> is refused, and so is a last dimension of \<open>a\<close>
  that is not the number of rows of \<open>m\<close>.
\<close>

definition matmul :: "bool \<Rightarrow> tensor \<Rightarrow> matrix \<Rightarrow> error + tensor" where
  "matmul g a m =
     (if shape a = [] then Inl RankError
      else if last (shape a) \<noteq> nrows m then Inl ShapeMismatch
      else Inr \<lparr>shape = butlast (shape a) @ [ncols m],
                data = concat (map (\<lambda>r. map (\<lambda>j. dot r (column m j)) [0..<ncols m]) (rows a)),
                grad = (g \<and> (grad a \<or> mgrad m))\<rparr>)"

text \<open>\<^verbatim>\<open>torch.dot(a, b)\<close>: both one-dimensional and of the same length; the result has no dimension.\<close>

definition torch_dot :: "bool \<Rightarrow> tensor \<Rightarrow> tensor \<Rightarrow> error + tensor" where
  "torch_dot g a b =
     (if length (shape a) \<noteq> 1 \<or> length (shape b) \<noteq> 1 then Inl RankError
      else if shape a \<noteq> shape b then Inl ShapeMismatch
      else Inr \<lparr>shape = [], data = [dot (data a) (data b)], grad = (g \<and> (grad a \<or> grad b))\<rparr>)"

text \<open>
  Broadcasting. Two shapes are aligned at their last dimension; two aligned sizes must be
  equal or one of them 1. The function works on the reversed shapes.
\<close>

fun bshape :: "nat list \<Rightarrow> nat list \<Rightarrow> nat list option" where
  "bshape [] ys = Some ys"
| "bshape xs [] = Some xs"
| "bshape (x # xs) (y # ys) =
     (if x = y \<or> y = 1 then map_option ((#) x) (bshape xs ys)
      else if x = 1 then map_option ((#) y) (bshape xs ys)
      else None)"

definition broadcast_shapes :: "nat list \<Rightarrow> nat list \<Rightarrow> nat list option" where
  "broadcast_shapes s1 s2 = map_option rev (bshape (rev s1) (rev s2))"

text \<open>
  The elements of a tensor of shape \<open>ms\<close> seen at shape \<open>ns\<close> of the same length: a dimension
  of the same size is kept, a dimension of size 1 is repeated.
\<close>

fun expand :: "nat list \<Rightarrow> nat list \<Rightarrow> 'a list \<Rightarrow> 'a list" where
  "expand (m # ms) (n # ns) xs =
     (if m = n then concat (map (expand ms ns) (chunks m (prod_list ms) xs))
      else concat (replicate n (expand ms ns xs)))"
| "expand _ _ xs = xs"

definition expand_to :: "nat list \<Rightarrow> nat list \<Rightarrow> 'a list \<Rightarrow> 'a list" where
  "expand_to ns ms xs = expand (replicate (length ns - length ms) 1 @ ms) ns xs"

definition elementwise ::
  "(scalar \<Rightarrow> scalar \<Rightarrow> scalar) \<Rightarrow> bool \<Rightarrow> tensor \<Rightarrow> tensor \<Rightarrow> error + tensor" where
  "elementwise f g a b =
     (case broadcast_shapes (shape a) (shape b) of
        None \<Rightarrow> Inl ShapeMismatch
      | Some s \<Rightarrow>
          Inr \<lparr>shape = s,
               data = map2 f (expand_to s (shape a) (data a)) (expand_to s (shape b) (data b)),
               grad = (g \<and> (grad a \<or> grad b))\<rparr>)"

definition mul :: "bool \<Rightarrow> tensor \<Rightarrow> tensor \<Rightarrow> error + tensor" where
  "mul = elementwise fmul"

definition divide :: "bool \<Rightarrow> tensor \<Rightarrow> tensor \<Rightarrow> error + tensor" where
  "divide = elementwise fdiv"

definition sub :: "bool \<Rightarrow> tensor \<Rightarrow> tensor \<Rightarrow> error + tensor" where
  "sub = elementwise fsub"

text \<open>
  \<^verbatim>\<open>with torch.set_grad_enabled(mode): body\<close> runs the body with the gradient mode set to
  \<open>mode\<close> and puts the previous mode back when the body is left, by a return or by an error.
  The state is the gradient mode of the thread.
\<close>

definition set_grad_enabled :: "bool \<Rightarrow> (bool \<Rightarrow> 'a) \<Rightarrow> bool \<Rightarrow> 'a \<times> bool" where
  "set_grad_enabled mode body prev = (body mode, prev)"

section \<open>The debiasers\<close>

record Debiaser =
  requires_grad :: bool

definition Debiaser_init :: "bool \<Rightarrow> Debiaser" where
  "Debiaser_init rg = \<lparr>requires_grad = rg\<rparr>"

text \<open>
  \<^verbatim>\<open>embeddings - torch.matmul(embeddings, bias_direction.reshape(-1, 1))
       * bias_direction / torch.dot(bias_direction, bias_direction)\<close>
  The product is formed first, then the inner product of the direction with itself, then the
  quotient and the difference.
\<close>

definition HardDebiaser_forward ::
  "Debiaser \<Rightarrow> tensor \<Rightarrow> tensor \<Rightarrow> bool \<Rightarrow> (error + tensor) \<times> bool" where
  "HardDebiaser_forward self embeddings bias_direction =
     set_grad_enabled (requires_grad self) (\<lambda>g.
       and_then (matmul g embeddings (reshape_column g bias_direction)) (\<lambda>m.
       and_then (mul g m bias_direction) (\<lambda>p.
       and_then (torch_dot g bias_direction bias_direction) (\<lambda>n.
       and_then (divide g p n) (\<lambda>q.
       sub g embeddings q)))))"

text \<open>
  \<^verbatim>\<open>embeddings - torch.matmul(embeddings, bias_direction.reshape(-1, 1)) * bias_direction\<close>
\<close>

definition LinearDebiaser_forward ::
  "Debiaser \<Rightarrow> tensor \<Rightarrow> tensor \<Rightarrow> bool \<Rightarrow> (error + tensor) \<times> bool" where
  "LinearDebiaser_forward self embeddings bias_direction =
     set_grad_enabled (requires_grad self) (\<lambda>g.
       and_then (matmul g embeddings (reshape_column g bias_direction)) (\<lambda>m.
       and_then (mul g m bias_direction) (\<lambda>p.
       sub g embeddings p)))"

section \<open>Notions used in the statements\<close>

text \<open>
  An embeddings tensor has at least one dimension and as many elements as its shape says; a
  bias direction is such a tensor with exactly one dimension. A tensor is finite when none of
  its elements is an infinity or not-a-number.
\<close>

definition is_embeddings :: "tensor \<Rightarrow> bool" where
  "is_embeddings e = (shape e \<noteq> [] \<and> wf_tensor e)"

definition is_vector :: "tensor \<Rightarrow> bool" where
  "is_vector b = (length (shape b) = 1 \<and> wf_tensor b)"

definition all_finite :: "tensor \<Rightarrow> bool" where
  "all_finite t = list_all is_fin (data t)"

text \<open>
  What the two expressions compute for one vector \<open>r\<close> of the embeddings, and the inner
  product of real vectors. The lemmas \<open>HardDebiaser_forward_rows\<close> and
  \<open>LinearDebiaser_forward_rows\<close> below derive the first two from the tensor operations.
\<close>

definition hard_row :: "scalar list \<Rightarrow> scalar list \<Rightarrow> scalar list" where
  "hard_row bs r = map2 fsub r (map (\<lambda>y. fdiv (fmul (dot r bs) y) (dot bs bs)) bs)"

definition linear_row :: "scalar list \<Rightarrow> scalar list \<Rightarrow> scalar list" where
  "linear_row bs r = map2 fsub r (map (\<lambda>y. fmul (dot r bs) y) bs)"

definition rdot :: "real list \<Rightarrow> real list \<Rightarrow> real" where
  "rdot xs ys = sum_list (map2 (*) xs ys)"

text \<open>
  The numeric result of a call: the error raised, or the shape and the elements of the tensor
  returned, without the flag that says whether gradients are recorded.
\<close>

definition numeric :: "error + tensor \<Rightarrow> error + nat list \<times> scalar list" where
  "numeric r = map_sum id (\<lambda>t. (shape t, data t)) r"

section \<open>Element types\<close>

text \<open>
  The operations above compute with the elements of tensors of one element type. A tensor of
  the library also has an element type, and the library checks it: \<^verbatim>\<open>torch.matmul\<close> and
  \<^verbatim>\<open>torch.dot\<close> refuse operands of different element types, the elementwise operations
  convert to a common one. Here the tensors carry their element type, one of the two
  floating-point types in common use, and the two expressions are read once more.
\<close>

datatype dtype = Float32 | Float64

record typed_tensor =
  dtype :: dtype
  tensor_of :: tensor

record typed_matrix =
  mdtype :: dtype
  matrix_of :: matrix

definition typed_reshape_column :: "bool \<Rightarrow> typed_tensor \<Rightarrow> typed_matrix" where
  "typed_reshape_column g t = \<lparr>mdtype = dtype t, matrix_of = reshape_column g (tensor_of t)\<rparr>"

text \<open>
  \<^verbatim>\<open>torch.matmul\<close> looks at the numbers of dimensions and the sizes first and at the element
  types when it multiplies.
\<close>

definition typed_matmul :: "bool \<Rightarrow> typed_tensor \<Rightarrow> typed_matrix \<Rightarrow> error + typed_tensor" where
  "typed_matmul g a m =
     and_then (matmul g (tensor_of a) (matrix_of m)) (\<lambda>t.
       if dtype a \<noteq> mdtype m then Inl TypeMismatch
       else Inr \<lparr>dtype = dtype a, tensor_of = t\<rparr>)"

text \<open>
  \<^verbatim>\<open>torch.dot\<close> checks that both operands are one-dimensional, then that they have the
  same element type, then that they have the same length.
\<close>

definition typed_torch_dot :: "bool \<Rightarrow> typed_tensor \<Rightarrow> typed_tensor \<Rightarrow> error + typed_tensor" where
  "typed_torch_dot g a b =
     (if length (shape (tensor_of a)) \<noteq> 1 \<or> length (shape (tensor_of b)) \<noteq> 1 then Inl RankError
      else if dtype a \<noteq> dtype b then Inl TypeMismatch
      else and_then (torch_dot g (tensor_of a) (tensor_of b)) (\<lambda>t.
        Inr \<lparr>dtype = dtype a, tensor_of = t\<rparr>))"

text \<open>
  The element type of the result of an elementwise operation on floating-point tensors: an
  operand without dimensions yields to one with dimensions, otherwise the wider type wins.
\<close>

definition result_type :: "typed_tensor \<Rightarrow> typed_tensor \<Rightarrow> dtype" where
  "result_type a b =
     (if dtype a = dtype b then dtype a
      else if shape (tensor_of a) = [] \<and> shape (tensor_of b) \<noteq> [] then dtype b
      else if shape (tensor_of b) = [] \<and> shape (tensor_of a) \<noteq> [] then dtype a
      else Float64)"

definition typed_elementwise ::
  "(scalar \<Rightarrow> scalar \<Rightarrow> scalar) \<Rightarrow> bool \<Rightarrow> typed_tensor \<Rightarrow> typed_tensor \<Rightarrow>
     error + typed_tensor" where
  "typed_elementwise f g a b =
     and_then (elementwise f g (tensor_of a) (tensor_of b)) (\<lambda>t.
       Inr \<lparr>dtype = result_type a b, tensor_of = t\<rparr>)"

definition typed_mul :: "bool \<Rightarrow> typed_tensor \<Rightarrow> typed_tensor \<Rightarrow> error + typed_tensor" where
  "typed_mul = typed_elementwise fmul"

definition typed_divide :: "bool \<Rightarrow> typed_tensor \<Rightarrow> typed_tensor \<Rightarrow> error + typed_tensor" where
  "typed_divide = typed_elementwise fdiv"

definition typed_sub :: "bool \<Rightarrow> typed_tensor \<Rightarrow> typed_tensor \<Rightarrow> error + typed_tensor" where
  "typed_sub = typed_elementwise fsub"

text \<open>
  \<^verbatim>\<open>embeddings - torch.matmul(embeddings, bias_direction.reshape(-1, 1))
       * bias_direction / torch.dot(bias_direction, bias_direction)\<close>
\<close>

definition HardDebiaser_forward_typed ::
  "Debiaser \<Rightarrow> typed_tensor \<Rightarrow> typed_tensor \<Rightarrow> bool \<Rightarrow> (error + typed_tensor) \<times> bool" where
  "HardDebiaser_forward_typed self embeddings bias_direction =
     set_grad_enabled (requires_grad self) (\<lambda>g.
       and_then (typed_matmul g embeddings (typed_reshape_column g bias_direction)) (\<lambda>m.
       and_then (typed_mul g m bias_direction) (\<lambda>p.
       and_then (typed_torch_dot g bias_direction bias_direction) (\<lambda>n.
       and_then (typed_divide g p n) (\<lambda>q.
       typed_sub g embeddings q)))))"

text \<open>
  \<^verbatim>\<open>embeddings - torch.matmul(embeddings, bias_direction.reshape(-1, 1)) * bias_direction\<close>
\<close>

definition LinearDebiaser_forward_typed ::
  "Debiaser \<Rightarrow> typed_tensor \<Rightarrow> typed_tensor \<Rightarrow> bool \<Rightarrow> (error + typed_tensor) \<times> bool" where
  "LinearDebiaser_forward_typed self embeddings bias_direction =
     set_grad_enabled (requires_grad self) (\<lambda>g.
       and_then (typed_matmul g embeddings (typed_reshape_column g bias_direction)) (\<lambda>m.
       and_then (typed_mul g m bias_direction) (\<lambda>p.
       typed_sub g embeddings p)))"

text \<open>A result of the operations above, with an element type attached to the tensor.\<close>

definition with_dtype :: "dtype \<Rightarrow> error + tensor \<Rightarrow> error + typed_tensor" where
  "with_dtype d r = map_sum id (\<lambda>t. \<lparr>dtype = d, tensor_of = t\<rparr>) r"

section \<open>Lists cut into vectors\<close>

lemma chunks_Suc:
  "chunks (Suc n) d xs = take d xs # chunks n d (drop d xs)"
proof -
  have "[0..<Suc n] = 0 # map Suc [0..<n]"
    by (simp add: upt_conv_Cons map_Suc_upt del: upt_Suc)
  then show ?thesis
    by (simp add: chunks_def comp_def add.commute del: upt_Suc)
qed

lemma chunks_0 [simp]: "chunks 0 d xs = []"
  by (simp add: chunks_def)

lemma length_chunks [simp]: "length (chunks n d xs) = n"
  by (simp add: chunks_def)

lemma concat_chunks:
  "length xs = n * d \<Longrightarrow> concat (chunks n d xs) = xs"
proof (induction n arbitrary: xs)
  case 0
  then show ?case by simp
next
  case (Suc n)
  then have "concat (chunks n d (drop d xs)) = drop d xs" by simp
  then show ?case by (simp add: chunks_Suc)
qed

lemma chunks_concat:
  "\<forall>r\<in>set rs. length r = d \<Longrightarrow> chunks (length rs) d (concat rs) = rs"
  by (induction rs) (simp_all add: chunks_Suc)

lemma chunks_length:
  "length xs = n * d \<Longrightarrow> r \<in> set (chunks n d xs) \<Longrightarrow> length r = d"
proof (induction n arbitrary: xs)
  case 0
  then show ?case by simp
next
  case (Suc n)
  from Suc.prems have len: "length (drop d xs) = n * d" by simp
  from Suc.prems consider "r = take d xs" | "r \<in> set (chunks n d (drop d xs))"
    by (auto simp: chunks_Suc)
  then show ?case
  proof cases
    case 1
    then show ?thesis using Suc.prems by simp
  next
    case 2
    then show ?thesis using Suc.IH [OF len] by simp
  qed
qed

lemma chunks_subset:
  "r \<in> set (chunks n d xs) \<Longrightarrow> set r \<subseteq> set xs"
  by (auto simp: chunks_def dest!: in_set_takeD in_set_dropD)

section \<open>Broadcasting at the shapes that occur\<close>

lemma expand_same:
  "length xs = prod_list s \<Longrightarrow> expand s s xs = xs"
proof (induction s arbitrary: xs)
  case Nil
  then show ?case by simp
next
  case (Cons m ms)
  have "map (expand ms ms) (chunks m (prod_list ms) xs) = chunks m (prod_list ms) xs"
    using Cons by (intro map_idI) (auto dest: chunks_length [rotated])
  then show ?case using Cons.prems by (simp add: concat_chunks)
qed

lemma concat_map_concat:
  "concat (map (\<lambda>r. concat (map f r)) rs) = concat (map f (concat rs))"
  by (induction rs) simp_all

lemma chunks_one: "chunks 1 k xs = [take k xs]"
  by (simp add: chunks_def)

lemma expand_last_one:
  "length cs = prod_list p \<Longrightarrow> expand (p @ [1]) (p @ [n]) cs = concat (map (replicate n) cs)"
proof (induction p arbitrary: cs)
  case Nil
  then obtain c where c: "cs = [c]" by (cases cs) auto
  show ?case
  proof (cases "n = 1")
    case True
    then show ?thesis using c expand_same [of cs "[1]"] by simp
  next
    case False
    then show ?thesis using c by simp
  qed
next
  case (Cons m ms)
  let ?rs = "chunks m (prod_list ms) cs"
  have len: "length cs = m * prod_list ms" using Cons.prems by simp
  have "expand ((m # ms) @ [1]) ((m # ms) @ [n]) cs = concat (map (expand (ms @ [1]) (ms @ [n])) ?rs)"
    by simp
  also have "map (expand (ms @ [1]) (ms @ [n])) ?rs = map (\<lambda>r. concat (map (replicate n) r)) ?rs"
    by (rule map_cong [OF refl], rule Cons.IH) (rule chunks_length [OF len])
  also have "concat \<dots> = concat (map (replicate n) (concat ?rs))"
    by (rule concat_map_concat)
  also have "concat ?rs = cs"
    by (rule concat_chunks [OF len])
  finally show ?case .
qed

lemma concat_replicate_mult:
  "concat (replicate a (concat (replicate k xs))) = concat (replicate (a * k) xs)"
  by (induction a) (simp_all add: replicate_add)

lemma expand_vector:
  "length bs = n \<Longrightarrow>
   expand (replicate (length p) 1 @ [n]) (p @ [n]) bs = concat (replicate (prod_list p) bs)"
proof (induction p)
  case Nil
  then show ?case using expand_same [of bs "[n]"] by simp
next
  case (Cons m ms)
  let ?ones = "replicate (length ms) 1 @ [n]"
  have IH: "expand ?ones (ms @ [n]) bs = concat (replicate (prod_list ms) bs)"
    using Cons by simp
  have ones: "prod_list ?ones = n"
    by (simp add: prod_list_replicate)
  have unfold: "expand (replicate (length (m # ms)) 1 @ [n]) ((m # ms) @ [n]) bs
      = (if 1 = m then concat (map (expand ?ones (ms @ [n])) (chunks 1 (prod_list ?ones) bs))
         else concat (replicate m (expand ?ones (ms @ [n]) bs)))"
    by simp
  show ?case
  proof (cases "m = 1")
    case True
    have "chunks 1 (prod_list ?ones) bs = [bs]"
      using Cons.prems by (simp only: ones chunks_one) simp
    then show ?thesis unfolding unfold using True IH by simp
  next
    case False
    then show ?thesis unfolding unfold using IH by (simp add: concat_replicate_mult)
  qed
qed

lemma concat_replicate_replicate:
  "concat (replicate m (replicate k x)) = replicate (m * k) x"
  by (induction m) (simp_all add: replicate_add)

lemma expand_scalar:
  "expand (replicate (length s) 1) s [x] = replicate (prod_list s) x"
proof (induction s)
  case Nil
  then show ?case by simp
next
  case (Cons m ms)
  let ?ones = "replicate (length ms) (1::nat)"
  have ones: "prod_list ?ones = 1"
    by (simp add: prod_list_replicate)
  have unfold: "expand (replicate (length (m # ms)) 1) (m # ms) [x]
      = (if 1 = m then concat (map (expand ?ones ms) (chunks 1 (prod_list ?ones) [x]))
         else concat (replicate m (expand ?ones ms [x])))"
    by simp
  show ?case
  proof (cases "m = 1")
    case True
    have "chunks 1 (prod_list ?ones) [x] = [[x]]"
      by (simp only: ones chunks_one) simp
    then show ?thesis unfolding unfold using True Cons.IH by simp
  next
    case False
    then show ?thesis unfolding unfold using Cons.IH by (simp add: concat_replicate_replicate)
  qed
qed

lemma bshape_same: "bshape s s = Some s"
  by (induction s) simp_all

lemma broadcast_shapes_same: "broadcast_shapes s s = Some s"
  by (simp add: broadcast_shapes_def bshape_same)

lemma bshape_Nil2: "bshape s [] = Some s"
  by (cases s) simp_all

lemma broadcast_shapes_scalar: "broadcast_shapes s [] = Some s"
  by (simp add: broadcast_shapes_def bshape_Nil2)

lemma broadcast_shapes_column: "broadcast_shapes (p @ [1]) [n] = Some (p @ [n])"
  by (simp add: broadcast_shapes_def bshape_Nil2)

section \<open>The operations at the shapes that occur\<close>

lemma column_reshape:
  "wf_tensor b \<Longrightarrow> column (reshape_column g b) 0 = data b"
  using map_nth [of "data b"]
  by (simp add: column_def reshape_column_def numel_def wf_tensor_def)

lemma matmul_column:
  assumes "shape e \<noteq> []" and "wf_tensor b" and "last (shape e) = numel b"
  shows "matmul g e (reshape_column g b) =
           Inr \<lparr>shape = butlast (shape e) @ [1],
                data = map (\<lambda>r. dot r (data b)) (rows e),
                grad = (g \<and> (grad e \<or> grad b))\<rparr>"
proof -
  have "concat (map (\<lambda>r. [dot r (data b)]) rs) = map (\<lambda>r. dot r (data b)) rs" for rs
    by (induction rs) simp_all
  moreover have "nrows (reshape_column g b) = numel b" "ncols (reshape_column g b) = 1"
    "mgrad (reshape_column g b) = (g \<and> grad b)"
    by (simp_all add: reshape_column_def)
  ultimately show ?thesis
    using assms column_reshape [OF assms(2), of g] by (auto simp: matmul_def)
qed

lemma matmul_mismatch:
  "shape e \<noteq> [] \<Longrightarrow> last (shape e) \<noteq> numel b \<Longrightarrow>
   matmul g e (reshape_column g b) = Inl ShapeMismatch"
  by (simp add: matmul_def reshape_column_def)

lemma map2_replicate_concat:
  "map2 f (concat (map (replicate (length bs)) cs)) (concat (replicate (length cs) bs))
     = concat (map (\<lambda>c. map (f c) bs) cs)"
proof (induction cs)
  case Nil
  then show ?case by simp
next
  case (Cons c cs)
  have "map2 f (replicate (length bs) c) bs = map (f c) bs"
    by (simp add: map2_map_map [symmetric] zip_replicate1 map_zip_map del: map2_map_map) 
  with Cons show ?case by (simp add: zip_append)
qed

lemma map2_replicate_right:
  "map2 f xs (replicate (length xs) s) = map (\<lambda>x. f x s) xs"
  by (induction xs) simp_all

lemma map2_concat_rows:
  "\<forall>r\<in>set rs. length (h r) = length r \<Longrightarrow>
   map2 f (concat rs) (concat (map h rs)) = concat (map (\<lambda>r. map2 f r (h r)) rs)"
  by (induction rs) (simp_all add: zip_append)

lemma length_concat_const:
  "\<forall>r\<in>set rs. length r = d \<Longrightarrow> length (concat rs) = length rs * d"
  by (induction rs) simp_all

lemma mul_column:
  assumes "length cs = prod_list p" and "shape b = [n]" and "wf_tensor b"
  shows "mul g \<lparr>shape = p @ [1], data = cs, grad = t\<rparr> b =
           Inr \<lparr>shape = p @ [n],
                data = concat (map (\<lambda>c. map (fmul c) (data b)) cs),
                grad = (g \<and> (t \<or> grad b))\<rparr>"
proof -
  have n: "length (data b) = n" using assms by (simp add: wf_tensor_def)
  have "expand_to (p @ [n]) (p @ [1]) cs = concat (map (replicate (length (data b))) cs)"
    using expand_last_one [OF assms(1), of n] n by (simp add: expand_to_def)
  moreover have "expand_to (p @ [n]) [n] (data b) = concat (replicate (length cs) (data b))"
    using expand_vector [OF n, of p] assms(1) by (simp add: expand_to_def)
  ultimately show ?thesis
    using assms(2)
    by (simp add: mul_def elementwise_def broadcast_shapes_column map2_replicate_concat
             del: One_nat_def)
qed

lemma torch_dot_self:
  "length (shape b) = 1 \<Longrightarrow>
   torch_dot g b b = Inr \<lparr>shape = [], data = [dot (data b) (data b)], grad = (g \<and> grad b)\<rparr>"
  by (simp add: torch_dot_def)

lemma divide_scalar:
  assumes "length xs = prod_list s"
  shows "divide g \<lparr>shape = s, data = xs, grad = t\<rparr> \<lparr>shape = [], data = [c], grad = u\<rparr> =
           Inr \<lparr>shape = s, data = map (\<lambda>x. fdiv x c) xs, grad = (g \<and> (t \<or> u))\<rparr>"
proof -
  have "expand_to s s xs = xs"
    using expand_same [OF assms] by (simp add: expand_to_def)
  moreover have "expand_to s [] [c] = replicate (length xs) c"
    using expand_scalar [of s c] assms by (simp add: expand_to_def)
  ultimately show ?thesis
    by (simp add: divide_def elementwise_def broadcast_shapes_scalar map2_replicate_right)
qed

lemma sub_same_shape:
  assumes "wf_tensor e" and "length ys = prod_list (shape e)"
  shows "sub g e \<lparr>shape = shape e, data = ys, grad = t\<rparr> =
           Inr \<lparr>shape = shape e, data = map2 fsub (data e) ys, grad = (g \<and> (grad e \<or> t))\<rparr>"
proof -
  have "expand_to (shape e) (shape e) (data e) = data e"
    using expand_same [of "data e" "shape e"] assms(1) by (simp add: expand_to_def wf_tensor_def)
  moreover have "expand_to (shape e) (shape e) ys = ys"
    using expand_same [OF assms(2)] by (simp add: expand_to_def)
  ultimately show ?thesis
    by (simp add: sub_def elementwise_def broadcast_shapes_same)
qed

section \<open>The debiasers, vector by vector\<close>

lemma is_vector_shape: "is_vector b \<Longrightarrow> shape b = [numel b]"
  by (cases "shape b") (auto simp: is_vector_def numel_def)

lemma is_vector_length: "is_vector b \<Longrightarrow> length (data b) = numel b"
  by (simp add: is_vector_def wf_tensor_def numel_def)

lemma shape_split: "is_embeddings e \<Longrightarrow> butlast (shape e) @ [last (shape e)] = shape e"
  by (simp add: is_embeddings_def)

lemma rows_length:
  "is_embeddings e \<Longrightarrow> r \<in> set (rows e) \<Longrightarrow> length r = last (shape e)"
proof -
  assume e: "is_embeddings e" and r: "r \<in> set (rows e)"
  have "prod_list (shape e) = prod_list (butlast (shape e)) * last (shape e)"
    using shape_split [OF e] by (metis prod_list.append prod_list.Cons prod_list.Nil mult.right_neutral)
  then have "length (data e) = prod_list (butlast (shape e)) * last (shape e)"
    using e by (simp add: is_embeddings_def wf_tensor_def)
  then show ?thesis using r unfolding rows_def by (rule chunks_length)
qed

lemma length_rows [simp]: "length (rows e) = prod_list (butlast (shape e))"
  by (simp add: rows_def)

lemma concat_rows: "is_embeddings e \<Longrightarrow> concat (rows e) = data e"
proof -
  assume e: "is_embeddings e"
  have "prod_list (shape e) = prod_list (butlast (shape e)) * last (shape e)"
    using shape_split [OF e] by (metis prod_list.append prod_list.Cons prod_list.Nil mult.right_neutral)
  then have "length (data e) = prod_list (butlast (shape e)) * last (shape e)"
    using e by (simp add: is_embeddings_def wf_tensor_def)
  then show ?thesis unfolding rows_def by (rule concat_chunks)
qed

lemma length_hard_row: "length r = length bs \<Longrightarrow> length (hard_row bs r) = length bs"
  by (simp add: hard_row_def)

lemma length_linear_row: "length r = length bs \<Longrightarrow> length (linear_row bs r) = length bs"
  by (simp add: linear_row_def)

lemma and_then_Inr [simp]: "and_then (Inr x) f = f x"
  by (simp add: and_then_def)

lemma and_then_Inl [simp]: "and_then (Inl e) f = Inl e"
  by (simp add: and_then_def)

lemma product_rows:
  assumes e: "is_embeddings e" and b: "is_vector b" and d: "last (shape e) = numel b"
  obtains m where "matmul g e (reshape_column g b) = Inr m"
    and "mul g m b =
           Inr \<lparr>shape = shape e,
                data = concat (map (\<lambda>r. map (fmul (dot r (data b))) (data b)) (rows e)),
                grad = (g \<and> (grad e \<or> grad b))\<rparr>"
proof -
  let ?m = "\<lparr>shape = butlast (shape e) @ [1], data = map (\<lambda>r. dot r (data b)) (rows e),
            grad = (g \<and> (grad e \<or> grad b))\<rparr>"
  have wfb: "wf_tensor b" and ne: "shape e \<noteq> []"
    using e b by (simp_all add: is_vector_def is_embeddings_def)
  have "mul g ?m b =
        Inr \<lparr>shape = butlast (shape e) @ [numel b],
             data = concat (map (\<lambda>c. map (fmul c) (data b)) (map (\<lambda>r. dot r (data b)) (rows e))),
             grad = (g \<and> ((g \<and> (grad e \<or> grad b)) \<or> grad b))\<rparr>"
    by (rule mul_column) (simp_all add: is_vector_shape [OF b] wfb)
  moreover have "(g \<and> ((g \<and> (grad e \<or> grad b)) \<or> grad b)) = (g \<and> (grad e \<or> grad b))"
    by auto
  ultimately have "mul g ?m b =
           Inr \<lparr>shape = shape e,
                data = concat (map (\<lambda>r. map (fmul (dot r (data b))) (data b)) (rows e)),
                grad = (g \<and> (grad e \<or> grad b))\<rparr>"
    using shape_split [OF e] d by (simp add: comp_def)
  with matmul_column [OF ne wfb d, of g] show thesis
    by (rule that)
qed

lemma length_product_rows:
  assumes e: "is_embeddings e" and b: "is_vector b" and d: "last (shape e) = numel b"
  shows "length (concat (map (\<lambda>r. map (f r) (data b)) (rows e))) = prod_list (shape e)"
proof -
  have "length (concat (map (\<lambda>r. map (f r) (data b)) (rows e))) = length (map (\<lambda>r. map (f r) (data b)) (rows e)) * numel b"
    by (rule length_concat_const) (simp add: is_vector_length [OF b])
  also have "\<dots> = prod_list (butlast (shape e)) * last (shape e)"
    using d by simp
  also have "\<dots> = prod_list (shape e)"
    using shape_split [OF e] by (metis prod_list.append prod_list.Cons prod_list.Nil mult.right_neutral)
  finally show ?thesis .
qed

lemma LinearDebiaser_forward_rows:
  assumes e: "is_embeddings e" and b: "is_vector b" and d: "last (shape e) = numel b"
  shows "LinearDebiaser_forward self e b g0 =
           (Inr \<lparr>shape = shape e,
                data = concat (map (linear_row (data b)) (rows e)),
                grad = (requires_grad self \<and> (grad e \<or> grad b))\<rparr>, g0)"
proof -
  let ?g = "requires_grad self"
  let ?h = "\<lambda>r. map (fmul (dot r (data b))) (data b)"
  have wfe: "wf_tensor e" using e by (simp add: is_embeddings_def)
  have len: "length (concat (map ?h (rows e))) = prod_list (shape e)"
    by (rule length_product_rows [OF e b d])
  have "map2 fsub (data e) (concat (map ?h (rows e))) = concat (map (\<lambda>r. map2 fsub r (?h r)) (rows e))"
    using map2_concat_rows [of "rows e" ?h fsub] rows_length [OF e] d is_vector_length [OF b]
    by (simp add: concat_rows [OF e])
  then have "sub ?g e \<lparr>shape = shape e, data = concat (map ?h (rows e)),
                grad = (?g \<and> (grad e \<or> grad b))\<rparr> =
        Inr \<lparr>shape = shape e, data = concat (map (linear_row (data b)) (rows e)),
                grad = (?g \<and> (grad e \<or> grad b))\<rparr>"
    using sub_same_shape [OF wfe len, of ?g "?g \<and> (grad e \<or> grad b)"]
    by (auto simp: linear_row_def [abs_def])
  moreover obtain m where "matmul ?g e (reshape_column ?g b) = Inr m"
    and "mul ?g m b = Inr \<lparr>shape = shape e, data = concat (map ?h (rows e)),
                grad = (?g \<and> (grad e \<or> grad b))\<rparr>"
    by (rule product_rows [OF e b d])
  ultimately show ?thesis
    by (simp add: LinearDebiaser_forward_def set_grad_enabled_def)
qed

lemma HardDebiaser_forward_rows:
  assumes e: "is_embeddings e" and b: "is_vector b" and d: "last (shape e) = numel b"
  shows "HardDebiaser_forward self e b g0 =
           (Inr \<lparr>shape = shape e,
                data = concat (map (hard_row (data b)) (rows e)),
                grad = (requires_grad self \<and> (grad e \<or> grad b))\<rparr>, g0)"
proof -
  let ?g = "requires_grad self"
  let ?s = "dot (data b) (data b)"
  let ?h = "\<lambda>r. map (fmul (dot r (data b))) (data b)"
  let ?k = "\<lambda>r. map (\<lambda>y. fdiv (fmul (dot r (data b)) y) ?s) (data b)"
  have wfe: "wf_tensor e" using e by (simp add: is_embeddings_def)
  have b1: "length (shape b) = 1" using b by (simp add: is_vector_def)
  have len: "length (concat (map ?h (rows e))) = prod_list (shape e)"
    by (rule length_product_rows [OF e b d])
  have len': "length (concat (map ?k (rows e))) = prod_list (shape e)"
    by (rule length_product_rows [OF e b d])
  have quot: "map (\<lambda>x. fdiv x ?s) (concat (map ?h (rows e))) = concat (map ?k (rows e))"
    by (simp add: map_concat comp_def)
  have "map2 fsub (data e) (concat (map ?k (rows e))) = concat (map (\<lambda>r. map2 fsub r (?k r)) (rows e))"
    using map2_concat_rows [of "rows e" ?k fsub] rows_length [OF e] d is_vector_length [OF b]
    by (simp add: concat_rows [OF e])
  then have "sub ?g e \<lparr>shape = shape e, data = concat (map ?k (rows e)),
                grad = (?g \<and> ((?g \<and> (grad e \<or> grad b)) \<or> (?g \<and> grad b)))\<rparr> =
        Inr \<lparr>shape = shape e, data = concat (map (hard_row (data b)) (rows e)),
                grad = (?g \<and> (grad e \<or> grad b))\<rparr>"
    using sub_same_shape [OF wfe len', of ?g "?g \<and> ((?g \<and> (grad e \<or> grad b)) \<or> (?g \<and> grad b))"]
    by (auto simp: hard_row_def [abs_def])
  moreover obtain m where "matmul ?g e (reshape_column ?g b) = Inr m"
    and "mul ?g m b = Inr \<lparr>shape = shape e, data = concat (map ?h (rows e)),
                grad = (?g \<and> (grad e \<or> grad b))\<rparr>"
    by (rule product_rows [OF e b d])
  moreover note divide_scalar [OF len, of ?g "?g \<and> (grad e \<or> grad b)" ?s "?g \<and> grad b"]
    torch_dot_self [OF b1, of ?g]
  ultimately show ?thesis
    by (simp add: HardDebiaser_forward_def set_grad_enabled_def quot)
qed

lemma forward_mismatch:
  assumes "shape e \<noteq> []" and "last (shape e) \<noteq> numel b"
  shows "HardDebiaser_forward self e b g0 = (Inl ShapeMismatch, g0)"
    and "LinearDebiaser_forward self e b g0 = (Inl ShapeMismatch, g0)"
  using assms
  by (simp_all add: HardDebiaser_forward_def LinearDebiaser_forward_def set_grad_enabled_def
      matmul_mismatch)

lemma rows_of_result:
  assumes e: "is_embeddings e" and f: "\<And>r. r \<in> set (rows e) \<Longrightarrow> length (f r) = last (shape e)"
  shows "rows \<lparr>shape = shape e, data = concat (map f (rows e)), grad = t\<rparr> = map f (rows e)"
proof -
  have "chunks (length (map f (rows e))) (last (shape e)) (concat (map f (rows e))) = map f (rows e)"
    by (rule chunks_concat) (auto simp: f)
  then show ?thesis by (simp add: rows_def)
qed

section \<open>Finite elements are real arithmetic\<close>

lemma finite_list: "list_all is_fin xs \<Longrightarrow> \<exists>rs. xs = map Fin rs"
proof (induction xs)
  case Nil
  then show ?case by simp
next
  case (Cons x xs)
  then obtain rs where "xs = map Fin rs" by auto
  moreover from Cons.prems obtain v where "x = Fin v" by (cases x) auto
  ultimately have "x # xs = map Fin (v # rs)" by simp
  then show ?case by (rule exI [of _ "v # rs"])
qed

lemma fsum_Fin: "fsum (map Fin xs) = Fin (sum_list xs)"
  by (induction xs) (simp_all add: fsum_def)

lemma dot_Fin: "dot (map Fin xs) (map Fin ys) = Fin (rdot xs ys)"
proof -
  have "map2 fmul (map Fin xs) (map Fin ys) = map Fin (map2 (*) xs ys)"
    by (induction xs ys rule: list_induct2') simp_all
  then show ?thesis by (simp only: dot_def rdot_def fsum_Fin)
qed

lemma rdot_Cons [simp]: "rdot (x # xs) (y # ys) = x * y + rdot xs ys"
  by (simp add: rdot_def)

lemma rdot_Nil [simp]: "rdot [] ys = 0" "rdot xs [] = 0"
  by (simp_all add: rdot_def)

lemma rdot_self_nonneg: "0 \<le> rdot ys ys"
  by (induction ys) simp_all

lemma rdot_self_zero: "rdot ys ys = 0 \<longleftrightarrow> (\<forall>y\<in>set ys. y = 0)"
proof (induction ys)
  case Nil
  then show ?case by simp
next
  case (Cons y ys)
  have "y * y + rdot ys ys = 0 \<longleftrightarrow> y * y = 0 \<and> rdot ys ys = 0"
    using rdot_self_nonneg [of ys] zero_le_square [of y]
    by (simp add: add_nonneg_eq_0_iff)
  with Cons show ?case by simp
qed

lemma rdot_removed:
  "length xs = length ys \<Longrightarrow>
   rdot (map2 (\<lambda>x y. x - c * y) xs ys) ys = rdot xs ys - c * rdot ys ys"
  by (induction xs ys rule: list_induct2) (simp_all add: algebra_simps)

lemma linear_row_Fin:
  "length xs = length ys \<Longrightarrow>
   linear_row (map Fin ys) (map Fin xs) = map Fin (map2 (\<lambda>x y. x - rdot xs ys * y) xs ys)"
proof -
  assume len: "length xs = length ys"
  have "length xs = length ys \<Longrightarrow>
     map2 fsub (map Fin xs) (map (\<lambda>y. fmul (Fin c) y) (map Fin ys)) = map Fin (map2 (\<lambda>x y. x - c * y) xs ys)" for c
    by (induction xs ys rule: list_induct2) (simp_all add: fsub_def)
  with len show ?thesis by (simp add: linear_row_def dot_Fin)
qed

lemma hard_row_Fin:
  "length xs = length ys \<Longrightarrow> rdot ys ys \<noteq> 0 \<Longrightarrow>
   hard_row (map Fin ys) (map Fin xs)
     = map Fin (map2 (\<lambda>x y. x - rdot xs ys / rdot ys ys * y) xs ys)"
proof -
  assume len: "length xs = length ys" and nz: "rdot ys ys \<noteq> 0"
  have "length xs = length ys \<Longrightarrow> s \<noteq> 0 \<Longrightarrow>
     map2 fsub (map Fin xs) (map (\<lambda>y. fdiv (fmul (Fin c) y) (Fin s)) (map Fin ys))
       = map Fin (map2 (\<lambda>x y. x - c / s * y) xs ys)" for c s
    by (induction xs ys rule: list_induct2) (simp_all add: fsub_def)
  with len nz show ?thesis by (simp add: hard_row_def dot_Fin)
qed


lemma fsum_Fin_only: "fsum xs = Fin v \<Longrightarrow> list_all is_fin xs"
proof (induction xs arbitrary: v)
  case Nil
  then show ?case by simp
next
  case (Cons x xs)
  from Cons.prems have "fadd x (fsum xs) = Fin v" by (simp add: fsum_def)
  then obtain a w where "x = Fin a" "fsum xs = Fin w"
    by (cases x; cases "fsum xs") auto
  with Cons.IH show ?case by simp
qed

lemma fmul_self_Fin: "is_fin (fmul x x) \<Longrightarrow> is_fin x"
  by (cases x) auto

lemma dot_self_Fin: "dot bs bs = Fin v \<Longrightarrow> list_all is_fin bs"
proof -
  assume "dot bs bs = Fin v"
  then have "list_all is_fin (map2 fmul bs bs)"
    unfolding dot_def by (rule fsum_Fin_only)
  then show ?thesis
    by (induction bs) (auto dest: fmul_self_Fin)
qed


lemma fdiv_one [simp]: "fdiv x (Fin 1) = x"
  by (cases x) simp_all

lemma hard_row_unit: "dot bs bs = Fin 1 \<Longrightarrow> hard_row bs r = linear_row bs r"
  by (simp add: hard_row_def linear_row_def)

lemma map2_sub_zero:
  "length xs = length ys \<Longrightarrow> map2 (\<lambda>x y. x - 0 * y) xs ys = (xs :: real list)"
  by (induction xs ys rule: list_induct2) simp_all

lemma hard_row_idem:
  assumes "list_all is_fin r" and "list_all is_fin bs" and "length r = length bs"
    and "\<exists>y\<in>set bs. y \<noteq> Fin 0"
  shows "hard_row bs (hard_row bs r) = hard_row bs r"
proof -
  obtain xs ys where r: "r = map Fin xs" and bs: "bs = map Fin ys"
    using assms(1,2) finite_list by blast
  have len: "length xs = length ys" using assms(3) r bs by simp
  have nz: "rdot ys ys \<noteq> 0" using assms(4) bs by (auto simp: rdot_self_zero)
  let ?xs' = "map2 (\<lambda>x y. x - rdot xs ys / rdot ys ys * y) xs ys"
  have len': "length ?xs' = length ys" using len by simp
  have zero: "rdot ?xs' ys = 0"
    unfolding rdot_removed [OF len] using nz by simp
  show ?thesis
    unfolding r bs hard_row_Fin [OF len nz] hard_row_Fin [OF len' nz] zero
    using map2_sub_zero [OF len'] by simp
qed

lemma linear_row_idem:
  assumes "list_all is_fin r" and "length r = length bs" and "dot bs bs = Fin 1"
  shows "linear_row bs (linear_row bs r) = linear_row bs r"
proof -
  have "list_all is_fin bs" using assms(3) by (rule dot_self_Fin)
  then obtain xs ys where r: "r = map Fin xs" and bs: "bs = map Fin ys"
    using assms(1) finite_list by blast
  have len: "length xs = length ys" using assms(2) r bs by simp
  have one: "rdot ys ys = 1" using assms(3) bs by (simp add: dot_Fin)
  let ?xs' = "map2 (\<lambda>x y. x - rdot xs ys * y) xs ys"
  have len': "length ?xs' = length ys" using len by simp
  have zero: "rdot ?xs' ys = 0"
    unfolding rdot_removed [OF len] using one by simp
  show ?thesis
    unfolding r bs linear_row_Fin [OF len] linear_row_Fin [OF len'] zero
    using map2_sub_zero [OF len'] by simp
qed

lemma rows_finite:
  "all_finite e \<Longrightarrow> r \<in> set (rows e) \<Longrightarrow> list_all is_fin r"
  unfolding all_finite_def rows_def list_all_iff
  by (blast dest: chunks_subset)

section \<open>Applying a debiaser to its own result\<close>

lemma result_embeddings:
  assumes e: "is_embeddings e" and f: "\<And>r. r \<in> set (rows e) \<Longrightarrow> length (f r) = last (shape e)"
  shows "is_embeddings \<lparr>shape = shape e, data = concat (map f (rows e)), grad = t\<rparr>"
proof -
  have "length (concat (map f (rows e))) = length (map f (rows e)) * last (shape e)"
    by (rule length_concat_const) (auto simp: f)
  also have "\<dots> = prod_list (butlast (shape e) @ [last (shape e)])"
    by simp
  also have "\<dots> = prod_list (shape e)"
    by (simp only: shape_split [OF e])
  finally show ?thesis
    using e by (simp add: is_embeddings_def wf_tensor_def)
qed

lemma dot_self_nonzero:
  assumes "list_all is_fin bs"
  shows "dot bs bs \<noteq> Fin 0 \<longleftrightarrow> (\<exists>y\<in>set bs. y \<noteq> Fin 0)"
proof -
  obtain ys where bs: "bs = map Fin ys" using assms finite_list by blast
  show ?thesis unfolding bs dot_Fin by (auto simp: rdot_self_zero)
qed

lemma HardDebiaser_twice:
  assumes e: "is_embeddings e" and b: "is_vector b" and d: "last (shape e) = numel b"
    and idem: "\<And>r. r \<in> set (rows e) \<Longrightarrow>
                 hard_row (data b) (hard_row (data b) r) = hard_row (data b) r"
    and out: "HardDebiaser_forward self e b g = (Inr out, g')"
  shows "HardDebiaser_forward self out b g' = (Inr out, g')"
proof -
  let ?t = "requires_grad self \<and> (grad e \<or> grad b)"
  let ?f = "hard_row (data b)"
  have len: "length (?f r) = last (shape e)" if "r \<in> set (rows e)" for r
    using rows_length [OF e that] d is_vector_length [OF b] by (simp add: length_hard_row)
  have o: "out = \<lparr>shape = shape e, data = concat (map ?f (rows e)), grad = ?t\<rparr>" and g: "g' = g"
    using out HardDebiaser_forward_rows [OF e b d, of self g] by simp_all
  have e': "is_embeddings out" unfolding o by (rule result_embeddings [OF e len])
  have rows': "rows out = map ?f (rows e)" unfolding o by (rule rows_of_result [OF e len])
  have "map ?f (map ?f (rows e)) = map ?f (rows e)"
    using idem by (simp add: map_idI)
  then have "concat (map ?f (rows out)) = concat (map ?f (rows e))"
    by (simp only: rows')
  also have "\<dots> = data out"
    by (simp add: o)
  finally have dat: "concat (map ?f (rows out)) = data out" .
  have "\<lparr>shape = shape out, data = concat (map ?f (rows out)),
          grad = (requires_grad self \<and> (grad out \<or> grad b))\<rparr> = out"
    unfolding dat by (auto simp: o)
  moreover have "last (shape out) = numel b"
    using d by (simp add: o)
  ultimately show ?thesis
    using HardDebiaser_forward_rows [OF e' b, of self g'] by simp
qed

lemma LinearDebiaser_twice:
  assumes e: "is_embeddings e" and b: "is_vector b" and d: "last (shape e) = numel b"
    and idem: "\<And>r. r \<in> set (rows e) \<Longrightarrow>
                 linear_row (data b) (linear_row (data b) r) = linear_row (data b) r"
    and out: "LinearDebiaser_forward self e b g = (Inr out, g')"
  shows "LinearDebiaser_forward self out b g' = (Inr out, g')"
proof -
  let ?t = "requires_grad self \<and> (grad e \<or> grad b)"
  let ?f = "linear_row (data b)"
  have len: "length (?f r) = last (shape e)" if "r \<in> set (rows e)" for r
    using rows_length [OF e that] d is_vector_length [OF b] by (simp add: length_linear_row)
  have o: "out = \<lparr>shape = shape e, data = concat (map ?f (rows e)), grad = ?t\<rparr>" and g: "g' = g"
    using out LinearDebiaser_forward_rows [OF e b d, of self g] by simp_all
  have e': "is_embeddings out" unfolding o by (rule result_embeddings [OF e len])
  have rows': "rows out = map ?f (rows e)" unfolding o by (rule rows_of_result [OF e len])
  have "map ?f (map ?f (rows e)) = map ?f (rows e)"
    using idem by (simp add: map_idI)
  then have "concat (map ?f (rows out)) = concat (map ?f (rows e))"
    by (simp only: rows')
  also have "\<dots> = data out"
    by (simp add: o)
  finally have dat: "concat (map ?f (rows out)) = data out" .
  have "\<lparr>shape = shape out, data = concat (map ?f (rows out)),
          grad = (requires_grad self \<and> (grad out \<or> grad b))\<rparr> = out"
    unfolding dat by (auto simp: o)
  moreover have "last (shape out) = numel b"
    using d by (simp add: o)
  ultimately show ?thesis
    using LinearDebiaser_forward_rows [OF e' b, of self g'] by simp
qed

lemma HardDebiaser_twice_nonzero:
  assumes e: "is_embeddings e" and b: "is_vector b" and d: "last (shape e) = numel b"
    and fe: "all_finite e" and fb: "all_finite b" and nz: "\<exists>y\<in>set (data b). y \<noteq> Fin 0"
  shows "\<exists>out. HardDebiaser_forward self e b g = (Inr out, g) \<and>
           HardDebiaser_forward self out b g = (Inr out, g)"
proof -
  have idem: "hard_row (data b) (hard_row (data b) r) = hard_row (data b) r"
    if r: "r \<in> set (rows e)" for r
  proof -
    have "length r = length (data b)"
      using rows_length [OF e r] d is_vector_length [OF b] by simp
    then show ?thesis
      using rows_finite [OF fe r] fb nz by (intro hard_row_idem) (simp_all add: all_finite_def)
  qed
  obtain out where out: "HardDebiaser_forward self e b g = (Inr out, g)"
    using HardDebiaser_forward_rows [OF e b d] by blast
  have "HardDebiaser_forward self out b g = (Inr out, g)"
    by (rule HardDebiaser_twice [OF e b d _ out]) (rule idem)
  with out show ?thesis by blast
qed

section \<open>A zero bias direction\<close>

lemma fmul_zero: "fmul c (Fin 0) = Fin 0 \<or> fmul c (Fin 0) = NaN"
  by (cases c) (simp_all add: signed_inf_def)

lemma dot_zero_finite:
  "\<forall>y\<in>set zs. y = Fin 0 \<Longrightarrow> list_all is_fin r \<Longrightarrow> dot r zs = Fin 0"
proof (induction r zs rule: list_induct2')
  case (4 x xs y ys)
  then have "dot xs ys = Fin 0" and "y = Fin 0" and "is_fin x" by simp_all
  then show ?case
    by (cases x) (simp_all add: dot_def fsum_def)
qed (simp_all add: dot_def fsum_def)

lemma fsub_NaN [simp]: "fsub x NaN = NaN"
  by (cases x) (simp_all add: fsub_def)

lemma hard_row_zero_eq:
  assumes "\<forall>y\<in>set bs. y = Fin 0"
  shows "hard_row bs r = replicate (min (length r) (length bs)) NaN"
proof -
  have s: "dot bs bs = Fin 0"
    using assms(1) by (intro dot_zero_finite) (auto simp: list_all_iff)
  have q: "fdiv (fmul (dot r bs) (Fin 0)) (Fin 0) = NaN"
    using fmul_zero [of "dot r bs"] by (auto simp: signed_inf_def)
  have "fdiv (fmul (dot r bs) y) (dot bs bs) = NaN" if "y \<in> set bs" for y
  proof -
    from that assms(1) have "y = Fin 0" by blast
    then show ?thesis by (simp only: s q)
  qed
  then have m: "map (\<lambda>y. fdiv (fmul (dot r bs) y) (dot bs bs)) bs = map (\<lambda>y. NaN) bs"
    by (intro map_cong refl)
  have "map2 fsub xs (map (\<lambda>y. NaN) ys) = replicate (min (length xs) (length ys)) NaN"
    for xs :: "scalar list" and ys :: "scalar list"
    by (induction xs ys rule: list_induct2') simp_all
  then show ?thesis
    unfolding hard_row_def m .
qed


lemma hard_row_zero_idem:
  assumes "\<forall>y\<in>set bs. y = Fin 0" and "length r = length bs"
  shows "hard_row bs (hard_row bs r) = hard_row bs r"
  using assms(2) by (simp add: hard_row_zero_eq [OF assms(1)])

lemma map2_fsub_zero:
  "list_all is_fin r \<Longrightarrow> length r = length bs \<Longrightarrow> map2 fsub r (map (\<lambda>y. Fin 0) bs) = r"
proof (induction r bs rule: list_induct2')
  case (4 x xs y ys)
  then show ?case by (cases x) (simp_all add: fsub_def)
qed simp_all

lemma linear_row_zero:
  assumes "\<forall>y\<in>set bs. y = Fin 0" and "list_all is_fin r" and "length r = length bs"
  shows "linear_row bs r = r"
proof -
  have c: "dot r bs = Fin 0" using assms(1,2) by (rule dot_zero_finite)
  have "fmul (dot r bs) y = Fin 0" if "y \<in> set bs" for y
  proof -
    from that assms(1) have "y = Fin 0" by blast
    then show ?thesis by (simp add: c)
  qed
  then have m: "map (\<lambda>y. fmul (dot r bs) y) bs = map (\<lambda>y. Fin 0) bs"
    by (intro map_cong refl)
  show ?thesis
    unfolding linear_row_def m by (rule map2_fsub_zero [OF assms(2,3)])
qed

section \<open>Results independent of the gradient mode\<close>

lemma numeric_elementwise:
  "shape a = shape a' \<Longrightarrow> data a = data a' \<Longrightarrow> shape b = shape b' \<Longrightarrow> data b = data b' \<Longrightarrow>
   numeric (elementwise f g a b) = numeric (elementwise f g' a' b')"
  by (simp add: numeric_def elementwise_def split: option.splits)

lemma numeric_matmul:
  "shape a = shape a' \<Longrightarrow> data a = data a' \<Longrightarrow>
   numeric (matmul g a (reshape_column g b)) = numeric (matmul g' a' (reshape_column g' b))"
  by (simp add: numeric_def matmul_def reshape_column_def rows_def column_def)

lemma numeric_torch_dot:
  "numeric (torch_dot g a b) = numeric (torch_dot g' a b)"
  by (simp add: numeric_def torch_dot_def)

lemma numeric_cases:
  "numeric r = numeric r' \<Longrightarrow>
   (\<exists>x. r = Inl x \<and> r' = Inl x) \<or> (\<exists>t t'. r = Inr t \<and> r' = Inr t' \<and> shape t = shape t' \<and> data t = data t')"
  by (cases r; cases r') (auto simp: numeric_def)

lemma numeric_and_then:
  assumes "numeric r = numeric r'"
    and "\<And>t t'. shape t = shape t' \<Longrightarrow> data t = data t' \<Longrightarrow> numeric (f t) = numeric (f' t')"
  shows "numeric (and_then r f) = numeric (and_then r' f')"
  using numeric_cases [OF assms(1)] assms(2) by (auto simp: numeric_def)

text \<open>What the flag does decide is whether the result records gradients.\<close>

lemma forward_records_gradients:
  assumes "is_embeddings e" and "is_vector b" and "last (shape e) = numel b"
  shows "\<exists>out. HardDebiaser_forward self e b g = (Inr out, g) \<and>
           grad out = (requires_grad self \<and> (grad e \<or> grad b))"
    and "\<exists>out. LinearDebiaser_forward self e b g = (Inr out, g) \<and>
           grad out = (requires_grad self \<and> (grad e \<or> grad b))"
  using HardDebiaser_forward_rows [OF assms, of self g]
    LinearDebiaser_forward_rows [OF assms, of self g]
  by simp_all

section \<open>The two expressions side by side\<close>

lemma rows_as_difference:
  assumes e: "is_embeddings e" and b: "is_vector b" and d: "last (shape e) = numel b"
  shows "concat (map (\<lambda>r. map2 fsub r (map (h r) (data b))) (rows e))
           = map2 fsub (data e) (concat (map (\<lambda>r. map (h r) (data b)) (rows e)))"
proof -
  have "map2 fsub (concat (rows e)) (concat (map (\<lambda>r. map (h r) (data b)) (rows e)))
          = concat (map (\<lambda>r. map2 fsub r (map (h r) (data b))) (rows e))"
    using rows_length [OF e] d is_vector_length [OF b]
    by (intro map2_concat_rows) simp
  then show ?thesis by (simp add: concat_rows [OF e])
qed

section \<open>Removal of the bias direction\<close>





section \<open>The two debiasers compared\<close>

text \<open>
  C3. On a bias direction of unit norm the two debiasers return the same result (and raise the
  same error when the lengths disagree). Whatever the norm, when the lengths agree the two
  results have the same shape and are the embeddings minus a tensor \<open>p\<close> for
  \<open>LinearDebiaser\<close> and minus \<open>p\<close> divided by the inner product of the direction with
  itself for \<open>HardDebiaser\<close>: the division is the only difference.
\<close>

theorem HardDebiaser_agrees_with_LinearDebiaser:
  assumes e: "is_embeddings e" and b: "is_vector b"
  shows "(dot (data b) (data b) = Fin 1 \<longrightarrow>
            HardDebiaser_forward self e b g = LinearDebiaser_forward self e b g) \<and>
         (last (shape e) = numel b \<longrightarrow>
            (\<exists>p linear hard.
               LinearDebiaser_forward self e b g = (Inr linear, g) \<and>
               HardDebiaser_forward self e b g = (Inr hard, g) \<and>
               shape hard = shape linear \<and> grad hard = grad linear \<and>
               length p = length (data e) \<and>
               data linear = map2 fsub (data e) p \<and>
               data hard = map2 fsub (data e) (map (\<lambda>x. fdiv x (dot (data b) (data b))) p)))"
proof (intro conjI impI)
  assume unit: "dot (data b) (data b) = Fin 1"
  show "HardDebiaser_forward self e b g = LinearDebiaser_forward self e b g"
  proof (cases "last (shape e) = numel b")
    case True
    have "hard_row (data b) = linear_row (data b)"
      using hard_row_unit [OF unit] by (simp add: fun_eq_iff)
    then show ?thesis
      by (simp add: HardDebiaser_forward_rows [OF e b True] LinearDebiaser_forward_rows [OF e b True])
  next
    case False
    have "shape e \<noteq> []" using e by (simp add: is_embeddings_def)
    then show ?thesis using forward_mismatch [of e b self g] False by simp
  qed
next
  assume d: "last (shape e) = numel b"
  let ?s = "dot (data b) (data b)"
  let ?p = "concat (map (\<lambda>r. map (fmul (dot r (data b))) (data b)) (rows e))"
  have "length ?p = prod_list (shape e)"
    by (rule length_product_rows [OF e b d])
  then have len: "length ?p = length (data e)"
    using e by (simp add: is_embeddings_def wf_tensor_def)
  have lin: "concat (map (linear_row (data b)) (rows e)) = map2 fsub (data e) ?p"
    unfolding linear_row_def [abs_def] by (rule rows_as_difference [OF e b d])
  have "concat (map (hard_row (data b)) (rows e))
      = map2 fsub (data e) (concat (map (\<lambda>r. map (\<lambda>y. fdiv (fmul (dot r (data b)) y) ?s) (data b)) (rows e)))"
    unfolding hard_row_def [abs_def] by (rule rows_as_difference [OF e b d])
  also have "concat (map (\<lambda>r. map (\<lambda>y. fdiv (fmul (dot r (data b)) y) ?s) (data b)) (rows e))
      = map (\<lambda>x. fdiv x ?s) ?p"
    by (simp add: map_concat comp_def)
  finally have hard: "concat (map (hard_row (data b)) (rows e)) = map2 fsub (data e) (map (\<lambda>x. fdiv x ?s) ?p)" .
  show "\<exists>p linear hard.
               LinearDebiaser_forward self e b g = (Inr linear, g) \<and>
               HardDebiaser_forward self e b g = (Inr hard, g) \<and>
               shape hard = shape linear \<and> grad hard = grad linear \<and>
               length p = length (data e) \<and>
               data linear = map2 fsub (data e) p \<and>
               data hard = map2 fsub (data e) (map (\<lambda>x. fdiv x (dot (data b) (data b))) p)"
    unfolding HardDebiaser_forward_rows [OF e b d] LinearDebiaser_forward_rows [OF e b d]
    using len lin hard by (intro exI [of _ ?p]) simp
qed

theorem HardDebiaser_agrees_with_LinearDebiaser_witness:
  "HardDebiaser_forward \<lparr>requires_grad = False\<rparr>
       \<lparr>shape = [2], data = [Fin 3, Fin 4], grad = False\<rparr>
       \<lparr>shape = [2], data = [Fin 1, Fin 0], grad = False\<rparr> True =
   LinearDebiaser_forward \<lparr>requires_grad = False\<rparr>
       \<lparr>shape = [2], data = [Fin 3, Fin 4], grad = False\<rparr>
       \<lparr>shape = [2], data = [Fin 1, Fin 0], grad = False\<rparr> True"
proof -
  let ?e = "\<lparr>shape = [2], data = [Fin 3, Fin 4], grad = False\<rparr>"
  let ?b = "\<lparr>shape = [2], data = [Fin 1, Fin 0], grad = False\<rparr>"
  have "is_embeddings ?e" "is_vector ?b"
    by (simp_all add: is_embeddings_def is_vector_def wf_tensor_def)
  moreover have "dot (data ?b) (data ?b) = Fin 1" by (simp add: dot_def fsum_def)
  ultimately show ?thesis
    using HardDebiaser_agrees_with_LinearDebiaser [of ?e ?b "\<lparr>requires_grad = False\<rparr>" True]
    by simp
qed

section \<open>Idempotence\<close>

text \<open>
  C4. Applying \<open>LinearDebiaser.forward\<close> twice with a direction that is not of unit norm
  need not give the result of applying it once: with the embedding \<open>[1, 0]\<close> and the
  direction \<open>[1, 1]\<close> the first application gives \<open>[0, -1]\<close> and the second gives
  \<open>[1, 0]\<close> back.
\<close>

theorem LinearDebiaser_not_idempotent:
  "LinearDebiaser_forward \<lparr>requires_grad = False\<rparr>
       \<lparr>shape = [1, 2], data = [Fin 1, Fin 0], grad = False\<rparr>
       \<lparr>shape = [2], data = [Fin 1, Fin 1], grad = False\<rparr> False
     = (Inr \<lparr>shape = [1, 2], data = [Fin 0, Fin (- 1)], grad = False\<rparr>, False) \<and>
   LinearDebiaser_forward \<lparr>requires_grad = False\<rparr>
       \<lparr>shape = [1, 2], data = [Fin 0, Fin (- 1)], grad = False\<rparr>
       \<lparr>shape = [2], data = [Fin 1, Fin 1], grad = False\<rparr> False
     = (Inr \<lparr>shape = [1, 2], data = [Fin 1, Fin 0], grad = False\<rparr>, False) \<and>
   \<lparr>shape = [1, 2], data = [Fin 1, Fin 0], grad = False\<rparr>
     \<noteq> \<lparr>shape = [1, 2], data = [Fin 0, Fin (- 1)], grad = False\<rparr>"
  by code_simp

text \<open>
  C4, as the code has it. For finite embeddings and a finite bias direction of matching length,
  \<open>HardDebiaser.forward\<close> applied to its own result returns that result again (for the
  zero direction both results consist of not-a-number only); \<open>LinearDebiaser.forward\<close>
  does so when the direction has unit norm or is the zero vector.
\<close>

theorem forward_idempotent:
  assumes e: "is_embeddings e" and b: "is_vector b" and d: "last (shape e) = numel b"
    and fe: "all_finite e" and fb: "all_finite b"
  shows "(\<exists>out. HardDebiaser_forward self e b g = (Inr out, g) \<and>
                HardDebiaser_forward self out b g = (Inr out, g)) \<and>
         (dot (data b) (data b) = Fin 1 \<or> (\<forall>y\<in>set (data b). y = Fin 0) \<longrightarrow>
            (\<exists>out. LinearDebiaser_forward self e b g = (Inr out, g) \<and>
                   LinearDebiaser_forward self out b g = (Inr out, g)))"
proof (intro conjI impI)
  have len: "length r = length (data b)" if "r \<in> set (rows e)" for r
    using rows_length [OF e that] d is_vector_length [OF b] by simp
  show "\<exists>out. HardDebiaser_forward self e b g = (Inr out, g) \<and>
                HardDebiaser_forward self out b g = (Inr out, g)"
  proof (cases "\<exists>y\<in>set (data b). y \<noteq> Fin 0")
    case True
    then show ?thesis by (rule HardDebiaser_twice_nonzero [OF e b d fe fb])
  next
    case False
    then have zero: "\<forall>y\<in>set (data b). y = Fin 0" by simp
    obtain out where out: "HardDebiaser_forward self e b g = (Inr out, g)"
      using HardDebiaser_forward_rows [OF e b d] by blast
    have "HardDebiaser_forward self out b g = (Inr out, g)"
      by (rule HardDebiaser_twice [OF e b d _ out]) (rule hard_row_zero_idem [OF zero len])
    with out show ?thesis by blast
  qed
  assume cond: "dot (data b) (data b) = Fin 1 \<or> (\<forall>y\<in>set (data b). y = Fin 0)"
  have idem: "linear_row (data b) (linear_row (data b) r) = linear_row (data b) r"
    if r: "r \<in> set (rows e)" for r
    using cond
  proof
    assume "dot (data b) (data b) = Fin 1"
    then show ?thesis
      using rows_finite [OF fe r] len [OF r] by (intro linear_row_idem)
  next
    assume "\<forall>y\<in>set (data b). y = Fin 0"
    then have "linear_row (data b) r = r"
      using rows_finite [OF fe r] len [OF r] by (intro linear_row_zero)
    then show ?thesis by simp
  qed
  obtain out where out: "LinearDebiaser_forward self e b g = (Inr out, g)"
    using LinearDebiaser_forward_rows [OF e b d] by blast
  have "LinearDebiaser_forward self out b g = (Inr out, g)"
    by (rule LinearDebiaser_twice [OF e b d _ out]) (rule idem)
  with out show "\<exists>out. LinearDebiaser_forward self e b g = (Inr out, g) \<and>
                   LinearDebiaser_forward self out b g = (Inr out, g)" by blast
qed

theorem forward_idempotent_witness:
  "(\<exists>out. HardDebiaser_forward \<lparr>requires_grad = False\<rparr>
       \<lparr>shape = [1, 2], data = [Fin 3, Fin 4], grad = False\<rparr>
       \<lparr>shape = [2], data = [Fin 1, Fin 0], grad = False\<rparr> True = (Inr out, True) \<and>
     HardDebiaser_forward \<lparr>requires_grad = False\<rparr> out
       \<lparr>shape = [2], data = [Fin 1, Fin 0], grad = False\<rparr> True = (Inr out, True)) \<and>
   (\<exists>out. LinearDebiaser_forward \<lparr>requires_grad = False\<rparr>
       \<lparr>shape = [1, 2], data = [Fin 3, Fin 4], grad = False\<rparr>
       \<lparr>shape = [2], data = [Fin 1, Fin 0], grad = False\<rparr> True = (Inr out, True) \<and>
     LinearDebiaser_forward \<lparr>requires_grad = False\<rparr> out
       \<lparr>shape = [2], data = [Fin 1, Fin 0], grad = False\<rparr> True = (Inr out, True))"
proof -
  let ?e = "\<lparr>shape = [1, 2], data = [Fin 3, Fin 4], grad = False\<rparr>"
  let ?b = "\<lparr>shape = [2], data = [Fin 1, Fin 0], grad = False\<rparr>"
  have "is_embeddings ?e" "is_vector ?b" "last (shape ?e) = numel ?b" "all_finite ?e"
    by (simp_all add: is_embeddings_def is_vector_def wf_tensor_def numel_def all_finite_def)
  moreover have "all_finite ?b" by (simp add: all_finite_def)
  moreover have "dot (data ?b) (data ?b) = Fin 1" by (simp add: dot_def fsum_def)
  ultimately show ?thesis
    using forward_idempotent [of ?e ?b "\<lparr>requires_grad = False\<rparr>" True] by simp
qed

text \<open>
  C10. For finite embeddings and a finite bias direction of matching length whose inner product
  with itself is not zero, whatever its norm, \<open>HardDebiaser.forward\<close> applied to its own
  result returns that result again.
\<close>

theorem HardDebiaser_idempotent:
  assumes e: "is_embeddings e" and b: "is_vector b" and d: "last (shape e) = numel b"
    and fe: "all_finite e" and fb: "all_finite b" and nz: "dot (data b) (data b) \<noteq> Fin 0"
  shows "\<exists>out. HardDebiaser_forward self e b g = (Inr out, g) \<and>
           HardDebiaser_forward self out b g = (Inr out, g)"
proof -
  have nz': "\<exists>y\<in>set (data b). y \<noteq> Fin 0"
    using nz fb by (simp add: dot_self_nonzero all_finite_def)
  then show ?thesis by (rule HardDebiaser_twice_nonzero [OF e b d fe fb])
qed

theorem HardDebiaser_idempotent_witness:
  "\<exists>out. HardDebiaser_forward \<lparr>requires_grad = False\<rparr>
       \<lparr>shape = [2, 2], data = [Fin 1, Fin 0, Fin 0, Fin 1], grad = False\<rparr>
       \<lparr>shape = [2], data = [Fin 1, Fin 1], grad = False\<rparr> True = (Inr out, True) \<and>
     HardDebiaser_forward \<lparr>requires_grad = False\<rparr> out
       \<lparr>shape = [2], data = [Fin 1, Fin 1], grad = False\<rparr> True = (Inr out, True)"
proof -
  let ?e = "\<lparr>shape = [2, 2], data = [Fin 1, Fin 0, Fin 0, Fin 1], grad = False\<rparr>"
  let ?b = "\<lparr>shape = [2], data = [Fin 1, Fin 1], grad = False\<rparr>"
  have "is_embeddings ?e" "is_vector ?b" "last (shape ?e) = numel ?b" "all_finite ?e" "all_finite ?b"
    by (simp_all add: is_embeddings_def is_vector_def wf_tensor_def numel_def all_finite_def)
  moreover have "dot (data ?b) (data ?b) \<noteq> Fin 0" by (simp add: dot_def fsum_def)
  ultimately show ?thesis
    using HardDebiaser_idempotent [of ?e ?b "\<lparr>requires_grad = False\<rparr>" True] by simp
qed

section \<open>Shapes and errors\<close>

text \<open>
  Outside the documented inputs the tensor library refuses the operands for their number of
  dimensions: embeddings without a dimension cannot be multiplied with a matrix.
\<close>

lemma forward_zero_dimensional:
  assumes "shape e = []"
  shows "HardDebiaser_forward self e b g = (Inl RankError, g)"
    and "LinearDebiaser_forward self e b g = (Inl RankError, g)"
  using assms
  by (simp_all add: HardDebiaser_forward_def LinearDebiaser_forward_def set_grad_enabled_def
      matmul_def)



text \<open>
  With the element types of the tensors carried along, a call on operands of one element type
  returns what the operations on the elements return, with that element type.
\<close>

lemma with_dtype_simps [simp]:
  "with_dtype d (Inl x) = Inl x" "with_dtype d (Inr t) = Inr \<lparr>dtype = d, tensor_of = t\<rparr>"
  by (simp_all add: with_dtype_def)

lemma with_dtype_and_then:
  "with_dtype d (and_then r f) = and_then r (\<lambda>t. with_dtype d (f t))"
  by (cases r) simp_all

lemma typed_matmul_same:
  "dtype a = dtype b \<Longrightarrow>
   typed_matmul g a (typed_reshape_column g b)
     = with_dtype (dtype a) (matmul g (tensor_of a) (reshape_column g (tensor_of b)))"
  by (cases "matmul g (tensor_of a) (reshape_column g (tensor_of b))")
     (simp_all add: typed_matmul_def typed_reshape_column_def)

lemma typed_elementwise_same:
  "dtype a = dtype b \<Longrightarrow>
   typed_elementwise f g a b = with_dtype (dtype a) (elementwise f g (tensor_of a) (tensor_of b))"
  by (cases "elementwise f g (tensor_of a) (tensor_of b)")
     (simp_all add: typed_elementwise_def result_type_def)

lemma typed_torch_dot_same:
  "dtype a = dtype b \<Longrightarrow>
   typed_torch_dot g a b = with_dtype (dtype a) (torch_dot g (tensor_of a) (tensor_of b))"
  by (cases "torch_dot g (tensor_of a) (tensor_of b)")
     (auto simp: typed_torch_dot_def torch_dot_def split: if_splits)

lemma and_then_with_dtype:
  "and_then (with_dtype d r) f = and_then r (\<lambda>t. f \<lparr>dtype = d, tensor_of = t\<rparr>)"
  by (cases r) simp_all

lemma HardDebiaser_forward_typed_same:
  assumes "dtype e = dtype b"
  shows "HardDebiaser_forward_typed self e b g =
           (with_dtype (dtype e) (fst (HardDebiaser_forward self (tensor_of e) (tensor_of b) g)), g)"
  using assms
  unfolding HardDebiaser_forward_typed_def HardDebiaser_forward_def set_grad_enabled_def fst_conv
    typed_mul_def typed_divide_def typed_sub_def mul_def divide_def sub_def
  by (simp add: typed_matmul_same typed_elementwise_same typed_torch_dot_same
      and_then_with_dtype with_dtype_and_then)

lemma LinearDebiaser_forward_typed_same:
  assumes "dtype e = dtype b"
  shows "LinearDebiaser_forward_typed self e b g =
           (with_dtype (dtype e) (fst (LinearDebiaser_forward self (tensor_of e) (tensor_of b) g)), g)"
  using assms
  unfolding LinearDebiaser_forward_typed_def LinearDebiaser_forward_def set_grad_enabled_def fst_conv
    typed_mul_def typed_sub_def mul_def sub_def
  by (simp add: typed_matmul_same typed_elementwise_same
      and_then_with_dtype with_dtype_and_then)

text \<open>
  Embeddings and a bias direction of different element types are refused although their sizes
  agree.
\<close>

lemma forward_typed_mismatch:
  assumes e: "is_embeddings (tensor_of e)" and b: "is_vector (tensor_of b)"
    and d: "last (shape (tensor_of e)) = numel (tensor_of b)" and t: "dtype e \<noteq> dtype b"
  shows "HardDebiaser_forward_typed self e b g = (Inl TypeMismatch, g)"
    and "LinearDebiaser_forward_typed self e b g = (Inl TypeMismatch, g)"
proof -
  have "shape (tensor_of e) \<noteq> []" "wf_tensor (tensor_of b)"
    using e b by (simp_all add: is_embeddings_def is_vector_def)
  then have "typed_matmul g' e (typed_reshape_column g' b) = Inl TypeMismatch" for g'
    using t matmul_column [OF _ _ d, of g']
    by (simp add: typed_matmul_def typed_reshape_column_def)
  then show "HardDebiaser_forward_typed self e b g = (Inl TypeMismatch, g)"
    and "LinearDebiaser_forward_typed self e b g = (Inl TypeMismatch, g)"
    by (simp_all add: HardDebiaser_forward_typed_def LinearDebiaser_forward_typed_def
        set_grad_enabled_def)
qed

lemma forward_errors_same_type:
  assumes e: "is_embeddings e" and b: "is_vector b"
  shows "last (shape e) \<noteq> numel b \<Longrightarrow> fst (HardDebiaser_forward self e b g) = Inl ShapeMismatch"
    and "last (shape e) \<noteq> numel b \<Longrightarrow> fst (LinearDebiaser_forward self e b g) = Inl ShapeMismatch"
    and "last (shape e) = numel b \<Longrightarrow> \<exists>out. fst (HardDebiaser_forward self e b g) = Inr out"
    and "last (shape e) = numel b \<Longrightarrow> \<exists>out. fst (LinearDebiaser_forward self e b g) = Inr out"
proof -
  have ne: "shape e \<noteq> []" using e by (simp add: is_embeddings_def)
  show "last (shape e) \<noteq> numel b \<Longrightarrow> fst (HardDebiaser_forward self e b g) = Inl ShapeMismatch"
    and "last (shape e) \<noteq> numel b \<Longrightarrow> fst (LinearDebiaser_forward self e b g) = Inl ShapeMismatch"
    using forward_mismatch [OF ne, of b self g] by simp_all
  show "last (shape e) = numel b \<Longrightarrow> \<exists>out. fst (HardDebiaser_forward self e b g) = Inr out"
    using HardDebiaser_forward_rows [OF e b, of self g] by simp
  show "last (shape e) = numel b \<Longrightarrow> \<exists>out. fst (LinearDebiaser_forward self e b g) = Inr out"
    using LinearDebiaser_forward_rows [OF e b, of self g] by simp
qed

text \<open>
  C6. The shape mismatch is not the only error: embeddings of one floating-point element type
  and a bias direction of the other are refused although the last dimension is the length of
  the direction; embeddings without a dimension are refused for their number of dimensions; and
  \<open>HardDebiaser.forward\<close> refuses a bias direction without a dimension, in
  \<^verbatim>\<open>torch.dot\<close>, although its one element matches a last dimension of size one.
\<close>

theorem forward_other_errors:
  "fst (HardDebiaser_forward_typed \<lparr>requires_grad = False\<rparr>
       \<lparr>dtype = Float32, tensor_of = \<lparr>shape = [1, 2], data = [Fin 1, Fin 2], grad = False\<rparr>\<rparr>
       \<lparr>dtype = Float64, tensor_of = \<lparr>shape = [2], data = [Fin 1, Fin 0], grad = False\<rparr>\<rparr> False)
     = Inl TypeMismatch \<and>
   fst (LinearDebiaser_forward_typed \<lparr>requires_grad = False\<rparr>
       \<lparr>dtype = Float32, tensor_of = \<lparr>shape = [1, 2], data = [Fin 1, Fin 2], grad = False\<rparr>\<rparr>
       \<lparr>dtype = Float64, tensor_of = \<lparr>shape = [2], data = [Fin 1, Fin 0], grad = False\<rparr>\<rparr> False)
     = Inl TypeMismatch \<and>
   fst (HardDebiaser_forward_typed \<lparr>requires_grad = False\<rparr>
       \<lparr>dtype = Float32, tensor_of = \<lparr>shape = [], data = [Fin 1], grad = False\<rparr>\<rparr>
       \<lparr>dtype = Float32, tensor_of = \<lparr>shape = [1], data = [Fin 1], grad = False\<rparr>\<rparr> False)
     = Inl RankError \<and>
   fst (LinearDebiaser_forward_typed \<lparr>requires_grad = False\<rparr>
       \<lparr>dtype = Float32, tensor_of = \<lparr>shape = [], data = [Fin 1], grad = False\<rparr>\<rparr>
       \<lparr>dtype = Float32, tensor_of = \<lparr>shape = [1], data = [Fin 1], grad = False\<rparr>\<rparr> False)
     = Inl RankError \<and>
   fst (HardDebiaser_forward_typed \<lparr>requires_grad = False\<rparr>
       \<lparr>dtype = Float32, tensor_of = \<lparr>shape = [3, 1], data = [Fin 1, Fin 2, Fin 3], grad = False\<rparr>\<rparr>
       \<lparr>dtype = Float32, tensor_of = \<lparr>shape = [], data = [Fin 2], grad = False\<rparr>\<rparr> False)
     = Inl RankError \<and>
   TypeMismatch \<noteq> ShapeMismatch \<and> RankError \<noteq> ShapeMismatch"
  by code_simp

text \<open>
  C6, as the code has it. On the inputs the operations are documented for (embeddings with at
  least one dimension, a one-dimensional bias direction of the same element type), both
  debiasers raise the shape-mismatch error exactly when the last dimension of the embeddings is
  not the length of the bias direction; they raise no other error, and return a tensor whenever
  the two agree.
\<close>

theorem forward_raises_only_ShapeMismatch:
  assumes e: "is_embeddings (tensor_of e)" and b: "is_vector (tensor_of b)" and t: "dtype e = dtype b"
  shows "(fst (HardDebiaser_forward_typed self e b g) = Inl ShapeMismatch
            \<longleftrightarrow> last (shape (tensor_of e)) \<noteq> numel (tensor_of b)) \<and>
         (\<forall>err. fst (HardDebiaser_forward_typed self e b g) = Inl err \<longrightarrow> err = ShapeMismatch) \<and>
         (last (shape (tensor_of e)) = numel (tensor_of b) \<longrightarrow>
            (\<exists>out. fst (HardDebiaser_forward_typed self e b g) = Inr out)) \<and>
         (fst (LinearDebiaser_forward_typed self e b g) = Inl ShapeMismatch
            \<longleftrightarrow> last (shape (tensor_of e)) \<noteq> numel (tensor_of b)) \<and>
         (\<forall>err. fst (LinearDebiaser_forward_typed self e b g) = Inl err \<longrightarrow> err = ShapeMismatch) \<and>
         (last (shape (tensor_of e)) = numel (tensor_of b) \<longrightarrow>
            (\<exists>out. fst (LinearDebiaser_forward_typed self e b g) = Inr out))"
proof (cases "last (shape (tensor_of e)) = numel (tensor_of b)")
  case True
  obtain h l where "fst (HardDebiaser_forward self (tensor_of e) (tensor_of b) g) = Inr h"
    and "fst (LinearDebiaser_forward self (tensor_of e) (tensor_of b) g) = Inr l"
    using forward_errors_same_type(3,4) [OF e b True] by blast
  then show ?thesis
    using True
    by (simp add: HardDebiaser_forward_typed_same [OF t] LinearDebiaser_forward_typed_same [OF t])
next
  case False
  then show ?thesis
    using forward_errors_same_type(1,2) [OF e b False, of self g]
    by (simp add: HardDebiaser_forward_typed_same [OF t] LinearDebiaser_forward_typed_same [OF t])
qed

theorem forward_raises_only_ShapeMismatch_witness:
  "fst (HardDebiaser_forward_typed \<lparr>requires_grad = False\<rparr>
       \<lparr>dtype = Float32, tensor_of = \<lparr>shape = [1, 3], data = [Fin 1, Fin 2, Fin 3], grad = False\<rparr>\<rparr>
       \<lparr>dtype = Float32, tensor_of = \<lparr>shape = [2], data = [Fin 1, Fin 0], grad = False\<rparr>\<rparr> True)
     = Inl ShapeMismatch \<and>
   fst (LinearDebiaser_forward_typed \<lparr>requires_grad = False\<rparr>
       \<lparr>dtype = Float32, tensor_of = \<lparr>shape = [1, 3], data = [Fin 1, Fin 2, Fin 3], grad = False\<rparr>\<rparr>
       \<lparr>dtype = Float32, tensor_of = \<lparr>shape = [2], data = [Fin 1, Fin 0], grad = False\<rparr>\<rparr> True)
     = Inl ShapeMismatch"
proof -
  let ?e = "\<lparr>dtype = Float32, tensor_of = \<lparr>shape = [1, 3], data = [Fin 1, Fin 2, Fin 3], grad = False\<rparr>\<rparr>"
  let ?b = "\<lparr>dtype = Float32, tensor_of = \<lparr>shape = [2], data = [Fin 1, Fin 0], grad = False\<rparr>\<rparr>"
  have "is_embeddings (tensor_of ?e)" "is_vector (tensor_of ?b)" "dtype ?e = dtype ?b"
    by (simp_all add: is_embeddings_def is_vector_def wf_tensor_def)
  then show ?thesis
    using forward_raises_only_ShapeMismatch [of ?e ?b "\<lparr>requires_grad = False\<rparr>" True]
    by (simp add: numel_def)
qed




section \<open>The flag and the result\<close>

text \<open>
  C8. The numeric result of either debiaser (the error, or the shape and the elements) is the
  same whatever the flag \<open>requires_grad\<close> the debiaser was constructed with, and whatever
  the gradient mode at the call.
\<close>

theorem requires_grad_no_effect:
  "numeric (fst (HardDebiaser_forward (Debiaser_init rg) e b g)) =
     numeric (fst (HardDebiaser_forward (Debiaser_init rg') e b g')) \<and>
   numeric (fst (LinearDebiaser_forward (Debiaser_init rg) e b g)) =
     numeric (fst (LinearDebiaser_forward (Debiaser_init rg') e b g'))"
proof
  show "numeric (fst (HardDebiaser_forward (Debiaser_init rg) e b g)) =
     numeric (fst (HardDebiaser_forward (Debiaser_init rg') e b g'))"
    unfolding HardDebiaser_forward_def set_grad_enabled_def fst_conv Debiaser_init_def
      mul_def divide_def sub_def
    by (intro numeric_and_then numeric_matmul numeric_elementwise numeric_torch_dot refl)
  show "numeric (fst (LinearDebiaser_forward (Debiaser_init rg) e b g)) =
     numeric (fst (LinearDebiaser_forward (Debiaser_init rg') e b g'))"
    unfolding LinearDebiaser_forward_def set_grad_enabled_def fst_conv Debiaser_init_def
      mul_def divide_def sub_def
    by (intro numeric_and_then numeric_matmul numeric_elementwise refl)
qed

theorem requires_grad_no_effect_witness:
  "numeric (fst (HardDebiaser_forward (Debiaser_init True)
       \<lparr>shape = [2], data = [Fin 3, Fin 4], grad = True\<rparr>
       \<lparr>shape = [2], data = [Fin 1, Fin 0], grad = False\<rparr> False)) =
     numeric (fst (HardDebiaser_forward (Debiaser_init False)
       \<lparr>shape = [2], data = [Fin 3, Fin 4], grad = True\<rparr>
       \<lparr>shape = [2], data = [Fin 1, Fin 0], grad = False\<rparr> False)) \<and>
   numeric (fst (LinearDebiaser_forward (Debiaser_init True)
       \<lparr>shape = [2], data = [Fin 3, Fin 4], grad = True\<rparr>
       \<lparr>shape = [2], data = [Fin 1, Fin 0], grad = False\<rparr> False)) =
     numeric (fst (LinearDebiaser_forward (Debiaser_init False)
       \<lparr>shape = [2], data = [Fin 3, Fin 4], grad = True\<rparr>
       \<lparr>shape = [2], data = [Fin 1, Fin 0], grad = False\<rparr> False))"
  by (rule requires_grad_no_effect)

section \<open>A worked example\<close>

text \<open>
  C9. For the embeddings \<open>[[1, 0], [0, 1]]\<close> and the direction \<open>[1, 1]\<close>, which is not
  of unit norm, \<open>HardDebiaser.forward\<close> returns \<open>[[0.5, -0.5], [-0.5, 0.5]]\<close> and
  \<open>LinearDebiaser.forward\<close> returns \<open>[[0, -1], [-1, 0]]\<close>.
\<close>

theorem forward_example_non_unit:
  "fst (HardDebiaser_forward self
       \<lparr>shape = [2, 2], data = [Fin 1, Fin 0, Fin 0, Fin 1], grad = False\<rparr>
       \<lparr>shape = [2], data = [Fin 1, Fin 1], grad = False\<rparr> g) =
     Inr \<lparr>shape = [2, 2], data = [Fin (1/2), Fin (- 1/2), Fin (- 1/2), Fin (1/2)], grad = False\<rparr> \<and>
   fst (LinearDebiaser_forward self
       \<lparr>shape = [2, 2], data = [Fin 1, Fin 0, Fin 0, Fin 1], grad = False\<rparr>
       \<lparr>shape = [2], data = [Fin 1, Fin 1], grad = False\<rparr> g) =
     Inr \<lparr>shape = [2, 2], data = [Fin 0, Fin (- 1), Fin (- 1), Fin 0], grad = False\<rparr>"
proof -
  let ?e = "\<lparr>shape = [2, 2], data = [Fin 1, Fin 0, Fin 0, Fin 1], grad = False\<rparr>"
  let ?b = "\<lparr>shape = [2], data = [Fin 1, Fin 1], grad = False\<rparr>"
  have e: "is_embeddings ?e" and b: "is_vector ?b" and d: "last (shape ?e) = numel ?b"
    by (simp_all add: is_embeddings_def is_vector_def wf_tensor_def numel_def)
  have two: "[0..<2] = [0, 1]" by (simp add: upt_conv_Cons)
  have rows: "rows ?e = [[Fin 1, Fin 0], [Fin 0, Fin 1]]"
    by (simp add: rows_def chunks_def two)
  show ?thesis
    unfolding HardDebiaser_forward_rows [OF e b d] LinearDebiaser_forward_rows [OF e b d]
    by (simp add: rows hard_row_def linear_row_def dot_def fsum_def fsub_def)
qed

theorem forward_example_non_unit_witness:
  "fst (HardDebiaser_forward \<lparr>requires_grad = False\<rparr>
       \<lparr>shape = [2, 2], data = [Fin 1, Fin 0, Fin 0, Fin 1], grad = False\<rparr>
       \<lparr>shape = [2], data = [Fin 1, Fin 1], grad = False\<rparr> False) =
     Inr \<lparr>shape = [2, 2], data = [Fin (1/2), Fin (- 1/2), Fin (- 1/2), Fin (1/2)], grad = False\<rparr> \<and>
   fst (LinearDebiaser_forward \<lparr>requires_grad = False\<rparr>
       \<lparr>shape = [2, 2], data = [Fin 1, Fin 0, Fin 0, Fin 1], grad = False\<rparr>
       \<lparr>shape = [2], data = [Fin 1, Fin 1], grad = False\<rparr> False) =
     Inr \<lparr>shape = [2, 2], data = [Fin 0, Fin (- 1), Fin (- 1), Fin 0], grad = False\<rparr>"
  by (rule forward_example_non_unit)

end
